theory Spec2Isabelle
  imports Complex_Main
begin

section \<open>Browser sessions (class BrowserInstance of temp/app.py)\<close>

text \<open>
  Time stamps are the readings of \<^verbatim>\<open>time.time()\<close>, in seconds, as exact rationals.
  A driver handle stands for the object returned by \<^verbatim>\<open>Driver(uc=True, headless=False)\<close>.
\<close>

type_synonym timestamp = rat
type_synonym driver_handle = nat
type_synonym pid = nat

text \<open>Configuration constants of the module.\<close>

definition AUTODOC_TIMEOUT :: nat where "AUTODOC_TIMEOUT = 120"
definition REALOEM_TIMEOUT :: nat where "REALOEM_TIMEOUT = 300"
definition POOL_MAX_INSTANCES :: nat where "POOL_MAX_INSTANCES = 3"
definition IDLE_KILL_AFTER :: rat where "IDLE_KILL_AFTER = 300"
definition IDLE_CHECK_EVERY :: rat where "IDLE_CHECK_EVERY = 60"

text \<open>
  The exceptions the modelled code can raise: whatever \<^verbatim>\<open>Driver(...)\<close> throws when Chrome
  does not come up, and the \<^verbatim>\<open>RuntimeError\<close> of \<^verbatim>\<open>BrowserPool.acquire\<close>.
\<close>

datatype exn = DriverStartError | RuntimeError string

text \<open>
  What the operating system is asked to do: \<^verbatim>\<open>driver.quit()\<close> on a handle and
  \<^verbatim>\<open>kill -9 pid\<close>. Both are in \<^verbatim>\<open>try ... except Exception: pass\<close>, so the request is
  issued and its failure changes nothing.
\<close>

datatype effect = DriverQuit driver_handle | Kill9 pid

text \<open>
  The outcome of \<^verbatim>\<open>Driver(uc=True, headless=False)\<close>: it raises, or it returns a handle; then
  \<^verbatim>\<open>self.driver.service.process.pid\<close> is read inside a try block and is \<^verbatim>\<open>None\<close> when that
  fails.
\<close>

datatype launch = LaunchRaises | Launched driver_handle "pid option"

text \<open>
  The fields of \<^verbatim>\<open>BrowserInstance\<close>. \<open>lock\<close> and \<open>warmup_lock\<close> are the two
  \<^verbatim>\<open>threading.Lock\<close> objects (\<open>True\<close>: locked); \<open>wait\<close> is the \<^verbatim>\<open>WebDriverWait\<close>, named by
  the driver it wraps; \<open>alive\<close> is \<^verbatim>\<open>_alive\<close>; \<open>service_pid\<close> is \<^verbatim>\<open>_service_pid\<close>, read with
  \<^verbatim>\<open>getattr(self, '_service_pid', None)\<close>, so a missing attribute and \<^verbatim>\<open>None\<close> are the same.
\<close>

record browser_instance =
  inst_id :: nat
  permanent :: bool
  lock :: bool
  warmup_lock :: bool
  driver :: "driver_handle option"
  wait :: "driver_handle option"
  autodoc_cookie_handled :: bool
  realoem_cookie_handled :: bool
  last_used :: timestamp
  alive :: bool
  service_pid :: "pid option"

text \<open>\<^verbatim>\<open>__init__\<close>, given the new value of the class counter and the clock.\<close>

definition new_instance :: "nat \<Rightarrow> bool \<Rightarrow> timestamp \<Rightarrow> browser_instance" where
  "new_instance i perm now =
     \<lparr> inst_id = i, permanent = perm, lock = False, warmup_lock = False,
       driver = None, wait = None,
       autodoc_cookie_handled = False, realoem_cookie_handled = False,
       last_used = now, alive = False, service_pid = None \<rparr>"

text \<open>
  \<^verbatim>\<open>start\<close>: when \<^verbatim>\<open>Driver(...)\<close> raises, the exception leaves the method before any field is
  assigned.
\<close>

definition start :: "launch \<Rightarrow> browser_instance \<Rightarrow> exn option \<times> browser_instance" where
  "start l s =
     (case l of
        LaunchRaises \<Rightarrow> (Some DriverStartError, s)
      | Launched d p \<Rightarrow>
          (None, s\<lparr> driver := Some d, wait := Some d, alive := True, service_pid := p \<rparr>))"

text \<open>
  \<^verbatim>\<open>quit\<close>: \<^verbatim>\<open>if service_pid:\<close> is false for \<^verbatim>\<open>None\<close> and for \<^verbatim>\<open>0\<close>.
\<close>

definition quit :: "browser_instance \<Rightarrow> effect list \<times> browser_instance" where
  "quit s =
     (let s1 = s\<lparr> alive := False \<rparr>;
          sp = service_pid s1;
          (e1, s2) = (case driver s1 of
                        Some d \<Rightarrow> ([DriverQuit d], s1\<lparr> driver := None, wait := None \<rparr>)
                      | None \<Rightarrow> ([], s1));
          (e2, s3) = (case sp of
                        Some p \<Rightarrow> (if p \<noteq> 0
                                   then ([Kill9 p], s2\<lparr> service_pid := None \<rparr>)
                                   else ([], s2))
                      | None \<Rightarrow> ([], s2))
      in (e1 @ e2, s3))"

text \<open>
  \<^verbatim>\<open>is_alive\<close>: \<open>title_ok\<close> says whether reading \<^verbatim>\<open>self.driver.title\<close> returns (rather than
  raises); it is only consulted when the flag is set and a driver is present.
\<close>

definition is_alive :: "bool \<Rightarrow> browser_instance \<Rightarrow> bool \<times> browser_instance" where
  "is_alive title_ok s =
     (if \<not> alive s \<or> driver s = None then (False, s)
      else if title_ok then (True, s)
      else (False, s\<lparr> alive := False \<rparr>))"

text \<open>
  \<^verbatim>\<open>revive\<close>: an exception of \<^verbatim>\<open>start\<close> leaves \<^verbatim>\<open>revive\<close> with the session as
  \<^verbatim>\<open>quit\<close> and the two assignments left it.
\<close>

definition revive :: "launch \<Rightarrow> browser_instance \<Rightarrow> exn option \<times> effect list \<times> browser_instance" where
  "revive l s =
     (let (es, s1) = quit s;
          s2 = s1\<lparr> autodoc_cookie_handled := False \<rparr>;
          s3 = s2\<lparr> realoem_cookie_handled := False \<rparr>;
          (x, s4) = start l s3
      in (x, es, s4))"

definition touch :: "timestamp \<Rightarrow> browser_instance \<Rightarrow> browser_instance" where
  "touch now s = s\<lparr> last_used := now \<rparr>"

text \<open>The liveness flag is set only while a driver handle is present.\<close>

definition alive_has_driver :: "browser_instance \<Rightarrow> bool" where
  "alive_has_driver s = (alive s \<longrightarrow> driver s \<noteq> None)"

text \<open>
  \<^verbatim>\<open>threading.Lock\<close>: \<^verbatim>\<open>acquire(blocking=False)\<close> takes a free lock and says so, and leaves
  a held one alone; \<^verbatim>\<open>release()\<close> on a lock that is not held raises \<^verbatim>\<open>RuntimeError\<close>.
\<close>

definition lock_acquire_nonblocking :: "browser_instance \<Rightarrow> bool \<times> browser_instance" where
  "lock_acquire_nonblocking s = (if lock s then (False, s) else (True, s\<lparr> lock := True \<rparr>))"

definition lock_release :: "browser_instance \<Rightarrow> exn option \<times> browser_instance" where
  "lock_release s =
     (if lock s then (None, s\<lparr> lock := False \<rparr>)
      else (Some (RuntimeError ''release unlocked lock''), s))"

section \<open>The pool (class BrowserPool of temp/app.py)\<close>

text \<open>
  Sessions are objects, shared by reference between the registry, the callers and the
  background threads. The store maps a reference to the object; a session's reference is its
  \<open>inst_id\<close>, which the class counter makes unique. References above \<open>id_counter\<close> are not
  allocated and the code cannot reach them.

  \<open>events\<close> records, in order, what the code did to the registry lock (\<^verbatim>\<open>self._lock\<close>), to the
  registry, and to the operating system.
\<close>

datatype event =
    PoolLockAcquire
  | PoolLockRelease
  | RegistryAppend nat
  | RegistryRemove nat
  | RegistryClear
  | InstQuit nat
  | OS effect

record world =
  id_counter :: nat
  heap :: "nat \<Rightarrow> browser_instance"
  instances :: "nat list"
  stopped :: bool
  events :: "event list"

definition init_world :: world where
  "init_world =
     \<lparr> id_counter = 0, heap = (\<lambda>_. new_instance 0 False 0), instances = [],
       stopped = False, events = [] \<rparr>"

text \<open>\<^verbatim>\<open>BrowserInstance(permanent=perm)\<close>: the counter is incremented and gives the id.\<close>

definition alloc :: "bool \<Rightarrow> timestamp \<Rightarrow> world \<Rightarrow> nat \<times> world" where
  "alloc perm now w =
     (let i = id_counter w + 1
      in (i, w\<lparr> id_counter := i, heap := (heap w)(i := new_instance i perm now) \<rparr>))"

definition emit :: "event list \<Rightarrow> world \<Rightarrow> world" where
  "emit es w = w\<lparr> events := events w @ es \<rparr>"

definition quit_at :: "nat \<Rightarrow> world \<Rightarrow> world" where
  "quit_at r w =
     (let (es, s) = quit (heap w r)
      in emit (InstQuit r # map OS es) (w\<lparr> heap := (heap w)(r := s) \<rparr>))"

text \<open>
  \<^verbatim>\<open>BrowserPool.start\<close>. \<^verbatim>\<open>perm.lock.acquire()\<close> is on the lock of the object just created,
  which is free. The two threads it starts are \<open>warmup_perm\<close> and the reaper below.
  \<^verbatim>\<open>_kill_orphaned_chromedrivers\<close> touches processes of an earlier run only.
\<close>

definition pool_start :: "launch \<Rightarrow> timestamp \<Rightarrow> world \<Rightarrow> exn option \<times> world" where
  "pool_start l now w =
     (let (r, w1) = alloc True now w;
          (x, s) = start l (heap w1 r);
          w2 = w1\<lparr> heap := (heap w1)(r := s) \<rparr>
      in case x of
           Some e \<Rightarrow> (Some e, w2)
         | None \<Rightarrow>
             (let w3 = w2\<lparr> heap := (heap w2)(r := (heap w2 r)\<lparr> lock := True \<rparr>) \<rparr>;
                  w4 = emit [PoolLockAcquire] w3;
                  w5 = emit [RegistryAppend r] (w4\<lparr> instances := instances w4 @ [r] \<rparr>);
                  w6 = emit [PoolLockRelease] w5
              in (None, w6)))"

text \<open>
  The thread \<^verbatim>\<open>_warmup_perm\<close>: \<open>cookies\<close> is the value \<^verbatim>\<open>warmup_autodoc\<close> leaves in
  \<^verbatim>\<open>autodoc_cookie_handled\<close> (an exception there is logged and dropped); then the lock is
  released, a \<^verbatim>\<open>RuntimeError\<close> being ignored.
\<close>

definition warmup_perm :: "bool \<Rightarrow> nat \<Rightarrow> world \<Rightarrow> world" where
  "warmup_perm cookies r w =
     (let s1 = (heap w r)\<lparr> autodoc_cookie_handled := cookies \<rparr>;
          (x, s2) = lock_release s1
      in w\<lparr> heap := (heap w)(r := s2) \<rparr>)"

text \<open>
  \<^verbatim>\<open>BrowserPool.shutdown\<close>, in its two parts: the first locked block, which returns at once
  when the pool is already stopped and otherwise copies the registry; then the calls of
  \<^verbatim>\<open>quit\<close> and the second locked block, which clears the registry.
\<close>

definition shutdown_begin :: "world \<Rightarrow> nat list option \<times> world" where
  "shutdown_begin w =
     (let w1 = emit [PoolLockAcquire] w
      in if stopped w1 then (None, emit [PoolLockRelease] w1)
         else
           (let w2 = w1\<lparr> stopped := True \<rparr>;
                insts = instances w2
            in (Some insts, emit [PoolLockRelease] w2)))"

definition shutdown_finish :: "nat list \<Rightarrow> world \<Rightarrow> world" where
  "shutdown_finish insts w =
     (let w1 = fold quit_at insts w;
          w2 = emit [PoolLockAcquire] w1;
          w3 = emit [RegistryClear] (w2\<lparr> instances := [] \<rparr>)
      in emit [PoolLockRelease] w3)"

definition shutdown :: "world \<Rightarrow> world" where
  "shutdown w =
     (case shutdown_begin w of
        (None, w1) \<Rightarrow> w1
      | (Some insts, w1) \<Rightarrow> shutdown_finish insts w1)"

text \<open>
  The scan of \<^verbatim>\<open>acquire\<close>: the first candidate whose lock is taken ends the \<^verbatim>\<open>for\<close> loop.
\<close>

fun try_lock_first ::
  "nat list \<Rightarrow> (nat \<Rightarrow> browser_instance) \<Rightarrow> nat option \<times> (nat \<Rightarrow> browser_instance)" where
  "try_lock_first [] h = (None, h)"
| "try_lock_first (candidate # rest) h =
     (let (got, s) = lock_acquire_nonblocking (h candidate)
      in if got then (Some candidate, h(candidate := s))
         else try_lock_first rest h)"

text \<open>The lines \<^verbatim>\<open>acquire\<close> writes with \<^verbatim>\<open>logger.info\<close>: the instance id and \<^verbatim>\<open>pool_size\<close>.\<close>

datatype log_line = LogSpawning nat nat | LogAcquired nat nat

text \<open>
  The block \<^verbatim>\<open>with self._lock:\<close> of one iteration of \<^verbatim>\<open>acquire\<close>. It yields \<^verbatim>\<open>inst\<close>,
  \<^verbatim>\<open>spawned\<close>, \<^verbatim>\<open>pool_size\<close> and the line logged. \<open>now\<close> is the clock read by \<^verbatim>\<open>__init__\<close>
  if a session is created. The thread started here is \<open>start_instance\<close> below.
\<close>

definition acquire_locked ::
  "bool \<Rightarrow> timestamp \<Rightarrow> world \<Rightarrow> (nat option \<times> bool \<times> nat \<times> log_line list) \<times> world" where
  "acquire_locked spawned now w =
     (let w1 = emit [PoolLockAcquire] w;
          pool_size = length (instances w1);
          (inst, h) = try_lock_first (instances w1) (heap w1);
          w2 = w1\<lparr> heap := h \<rparr>
      in if inst = None \<and> \<not> spawned \<and> pool_size < POOL_MAX_INSTANCES then
           (let (new_inst, w3) = alloc False now w2;
                w4 = w3\<lparr> heap := (heap w3)(new_inst := (heap w3 new_inst)\<lparr> lock := True \<rparr>) \<rparr>;
                w5 = emit [RegistryAppend new_inst] (w4\<lparr> instances := instances w4 @ [new_inst] \<rparr>);
                pool_size' = length (instances w5)
            in ((None, True, pool_size', [LogSpawning new_inst pool_size']),
                emit [PoolLockRelease] w5))
         else ((inst, spawned, pool_size, []), emit [PoolLockRelease] w2))"

text \<open>
  The part of \<^verbatim>\<open>acquire\<close> after the block, for the session it obtained. An exception of
  \<^verbatim>\<open>revive\<close> leaves \<^verbatim>\<open>acquire\<close>.
\<close>

definition acquire_finish ::
  "bool \<Rightarrow> launch \<Rightarrow> timestamp \<Rightarrow> nat \<Rightarrow> nat \<Rightarrow> world \<Rightarrow> (exn + nat) \<times> log_line list \<times> world" where
  "acquire_finish title_ok l now pool_size inst w =
     (let (ok, s1) = is_alive title_ok (heap w inst);
          w1 = w\<lparr> heap := (heap w)(inst := s1) \<rparr>
      in if \<not> ok then
           (let (x, es, s2) = revive l (heap w1 inst);
                w2 = emit (InstQuit inst # map OS es) (w1\<lparr> heap := (heap w1)(inst := s2) \<rparr>)
            in case x of
                 Some e \<Rightarrow> (Inl e, [], w2)
               | None \<Rightarrow>
                   (let s3 = (heap w2 inst)\<lparr> autodoc_cookie_handled := False \<rparr>;
                        s4 = s3\<lparr> realoem_cookie_handled := False \<rparr>;
                        s5 = touch now s4
                    in (Inr inst, [LogAcquired inst pool_size],
                        w2\<lparr> heap := (heap w2)(inst := s5) \<rparr>)))
         else (Inr inst, [LogAcquired inst pool_size],
               w1\<lparr> heap := (heap w1)(inst := touch now (heap w1 inst)) \<rparr>))"

text \<open>\<^verbatim>\<open>BrowserPool.release\<close>.\<close>

definition release :: "timestamp \<Rightarrow> nat \<Rightarrow> world \<Rightarrow> world" where
  "release now inst w =
     (let s1 = touch now (heap w inst);
          (x, s2) = lock_release s1
      in w\<lparr> heap := (heap w)(inst := s2) \<rparr>)"

text \<open>
  \<^verbatim>\<open>BrowserPool._start_instance\<close>, the thread of a spawned session.
\<close>

definition start_instance :: "launch \<Rightarrow> nat \<Rightarrow> world \<Rightarrow> world" where
  "start_instance l inst w =
     (let (x, s) = start l (heap w inst);
          w1 = w\<lparr> heap := (heap w)(inst := s) \<rparr>;
          w2 = (case x of
                  None \<Rightarrow> w1
                | Some e \<Rightarrow>
                    (let w3 = emit [PoolLockAcquire] w1;
                         w4 = (if inst \<in> set (instances w3)
                               then emit [RegistryRemove inst]
                                      (w3\<lparr> instances := remove1 inst (instances w3) \<rparr>)
                               else w3);
                         w5 = emit [PoolLockRelease] w4
                     in quit_at inst w5));
          (y, s') = lock_release (heap w2 inst)
      in w2\<lparr> heap := (heap w2)(inst := s') \<rparr>)"

text \<open>
  One cycle of \<^verbatim>\<open>BrowserPool._idle_reaper\<close>, after its \<^verbatim>\<open>time.sleep\<close>: \<open>now\<close> is the clock
  it reads. The result names the sessions it killed.
\<close>

definition reaper_selects :: "timestamp \<Rightarrow> browser_instance \<Rightarrow> bool" where
  "reaper_selects now s =
     (\<not> permanent s \<and> \<not> lock s \<and> (now - last_used s) > IDLE_KILL_AFTER)"

definition registry_remove :: "nat \<Rightarrow> world \<Rightarrow> world" where
  "registry_remove inst w =
     emit [RegistryRemove inst] (w\<lparr> instances := remove1 inst (instances w) \<rparr>)"

definition idle_reaper_cycle :: "timestamp \<Rightarrow> world \<Rightarrow> nat list \<times> world" where
  "idle_reaper_cycle now w =
     (let w1 = emit [PoolLockAcquire] w;
          to_kill = filter (\<lambda>inst. reaper_selects now (heap w1 inst)) (instances w1);
          w2 = fold registry_remove to_kill w1;
          w3 = emit [PoolLockRelease] w2;
          w4 = fold quit_at to_kill w3
      in (to_kill, w4))"


text \<open>The watchdog of a lease, when its timer fires: \<^verbatim>\<open>inst.quit()\<close>.\<close>

definition watchdog :: "nat \<Rightarrow> world \<Rightarrow> world" where
  "watchdog inst w = quit_at inst w"

section \<open>Threads\<close>

text \<open>
  What the threads of the server do to the pool, one step each: the locked block and the
  rest of some call of \<^verbatim>\<open>acquire\<close>, a \<^verbatim>\<open>release\<close>, the thread of a spawned session, the
  warm-up thread, a reaper cycle, either part of \<^verbatim>\<open>shutdown\<close>, a watchdog. The steps take
  any session and any list of sessions, also ones the code would not pass. \<^verbatim>\<open>BrowserPool.start\<close> is not
  among them: the server calls it once, from \<^verbatim>\<open>lifespan\<close>, before it serves a request.
\<close>

datatype action =
    ActAcquireLocked bool timestamp
  | ActAcquireFinish bool launch timestamp nat nat
  | ActRelease timestamp nat
  | ActStartInstance launch nat
  | ActWarmupPerm bool nat
  | ActReaper timestamp
  | ActShutdownBegin
  | ActShutdownFinish "nat list"
  | ActWatchdog nat

fun step :: "action \<Rightarrow> world \<Rightarrow> world" where
  "step (ActAcquireLocked spawned now) w = snd (acquire_locked spawned now w)"
| "step (ActAcquireFinish title_ok l now n inst) w = snd (snd (acquire_finish title_ok l now n inst w))"
| "step (ActRelease now inst) w = release now inst w"
| "step (ActStartInstance l inst) w = start_instance l inst w"
| "step (ActWarmupPerm cookies inst) w = warmup_perm cookies inst w"
| "step (ActReaper now) w = snd (idle_reaper_cycle now w)"
| "step ActShutdownBegin w = snd (shutdown_begin w)"
| "step (ActShutdownFinish insts) w = shutdown_finish insts w"
| "step (ActWatchdog inst) w = watchdog inst w"

definition run_actions :: "action list \<Rightarrow> world \<Rightarrow> world" where
  "run_actions acts w = fold step acts w"

section \<open>The polling loop of acquire\<close>

text \<open>
  What one iteration of the \<^verbatim>\<open>while\<close> loop meets: the clock at the loop test, the clock
  \<^verbatim>\<open>__init__\<close> reads if the iteration spawns, the outcome of the liveness probe and of a
  restart and the clock of \<^verbatim>\<open>touch\<close> if it obtains a session, and what the other threads
  do during \<^verbatim>\<open>time.sleep(0.5)\<close> if it does not.
\<close>

record tick =
  clock :: timestamp
  init_clock :: timestamp
  title_ok :: bool
  relaunch :: launch
  touch_clock :: timestamp
  others :: "action list"

definition pool_exhausted :: exn where
  "pool_exhausted = RuntimeError ''BrowserPool: no instance available within timeout''"

text \<open>
  The loop runs as long as the clock is before the deadline; the list of ticks is what it
  meets, and \<open>None\<close> says the loop is still polling when the list ends.
\<close>

fun acquire_loop ::
  "timestamp \<Rightarrow> bool \<Rightarrow> tick list \<Rightarrow> world \<Rightarrow> ((exn + nat) \<times> log_line list \<times> world) option" where
  "acquire_loop deadline spawned [] w = None"
| "acquire_loop deadline spawned (t # ts) w =
     (if \<not> clock t < deadline then Some (Inl pool_exhausted, [], w)
      else
        (case acquire_locked spawned (init_clock t) w of
           ((Some inst, spawned', pool_size, ls), w1) \<Rightarrow>
             (case acquire_finish (title_ok t) (relaunch t) (touch_clock t) pool_size inst w1 of
                (res, ls', w2) \<Rightarrow> Some (res, ls @ ls', w2))
         | ((None, spawned', pool_size, ls), w1) \<Rightarrow>
             (case acquire_loop deadline spawned' ts (run_actions (others t) w1) of
                None \<Rightarrow> None
              | Some (res, ls', w2) \<Rightarrow> Some (res, ls @ ls', w2))))"

text \<open>\<^verbatim>\<open>BrowserPool.acquire\<close>: \<open>t0\<close> is the clock read for the deadline.\<close>

definition acquire ::
  "timestamp \<Rightarrow> rat \<Rightarrow> tick list \<Rightarrow> world \<Rightarrow> ((exn + nat) \<times> log_line list \<times> world) option" where
  "acquire t0 timeout ts w = acquire_loop (t0 + timeout) False ts w"

section \<open>The endpoint /scrape\<close>

text \<open>
  \<^verbatim>\<open>str.strip()\<close> and \<^verbatim>\<open>str.lower()\<close>, on ASCII text: the white space of Python is the
  characters 9 to 13, 28 to 31 and the blank.
\<close>

definition py_isspace :: "char \<Rightarrow> bool" where
  "py_isspace c = (let n = (of_char c :: nat) in (9 \<le> n \<and> n \<le> 13) \<or> (28 \<le> n \<and> n \<le> 32))"

definition py_strip :: "string \<Rightarrow> string" where
  "py_strip s = rev (dropWhile py_isspace (rev (dropWhile py_isspace s)))"

definition py_lower_char :: "char \<Rightarrow> char" where
  "py_lower_char c =
     (let n = (of_char c :: nat) in if 65 \<le> n \<and> n \<le> 90 then char_of (n + 32) else c)"

definition py_lower :: "string \<Rightarrow> string" where
  "py_lower s = map py_lower_char s"

text \<open>The decimal digits of a number, as an f-string prints an \<^verbatim>\<open>int\<close>.\<close>

fun str_nat :: "nat \<Rightarrow> string" where
  "str_nat n =
     (if n < 10 then [char_of (48 + n)]
      else str_nat (n div 10) @ [char_of (48 + n mod 10)])"

declare str_nat.simps [simp del]

record barcode_request =
  req_barcode :: string
  req_scraper :: string

text \<open>\<^verbatim>\<open>ProductResponse\<close>; the scraped data are opaque here.\<close>

record product_response =
  success :: bool
  barcode :: string
  scraper :: string
  data :: "string option"
  error :: "string option"

text \<open>
  What the handler gives back: an \<^verbatim>\<open>HTTPException\<close> with its status code and detail, a
  response, or an exception it does not catch.
\<close>

datatype http_result = HTTPException nat string | Response product_response | Unhandled exn

text \<open>\<^verbatim>\<open>_run_scrape\<close> returns a response, or raises an exception \<open>e\<close>, given as \<^verbatim>\<open>str(e)\<close>.\<close>

datatype run_outcome = Returns product_response | Raises string

definition timed_out_response :: "nat \<Rightarrow> string \<Rightarrow> string \<Rightarrow> product_response" where
  "timed_out_response timeout b sc =
     \<lparr> success = False, barcode = b, scraper = sc, data = None,
       error = Some (''Scrape timed out after '' @ str_nat timeout @ ''s'') \<rparr>"

text \<open>
  The handler from the moment it holds a session: \<open>fired\<close> says that the watchdog has run
  (\<^verbatim>\<open>timed_out.set()\<close>, then \<^verbatim>\<open>inst.quit()\<close>) when \<^verbatim>\<open>timed_out.is_set()\<close> is read. The
  \<^verbatim>\<open>finally\<close> clause releases the session on every path.
\<close>

definition scrape_leased ::
  "nat \<Rightarrow> string \<Rightarrow> string \<Rightarrow> nat \<Rightarrow> run_outcome \<Rightarrow> bool \<Rightarrow> timestamp \<Rightarrow> world
     \<Rightarrow> product_response \<times> world" where
  "scrape_leased timeout b sc inst outcome fired now w =
     (let w1 = (if fired then watchdog inst w else w);
          response =
            (case outcome of
               Returns result \<Rightarrow>
                 if \<not> success result \<and> fired then timed_out_response timeout b sc
                 else result
             | Raises e \<Rightarrow>
                 if fired then timed_out_response timeout b sc
                 else \<lparr> success = False, barcode = b, scraper = sc, data = None,
                        error = Some e \<rparr>)
      in (response, release now inst w1))"

text \<open>The detail \<^verbatim>\<open>"Scraper must be 'autodoc' or 'realoem'"\<close>; \<open>CHR 0x27\<close> is the apostrophe.\<close>

definition bad_scraper_detail :: string where
  "bad_scraper_detail =
     ''Scraper must be '' @ [CHR 0x27] @ ''autodoc'' @ [CHR 0x27] @ '' or '' @
     [CHR 0x27] @ ''realoem'' @ [CHR 0x27]"

record scrape_env =
  acquire_clock :: timestamp
  acquire_ticks :: "tick list"
  run_outcome_of :: run_outcome
  watchdog_fired :: bool
  release_clock :: timestamp

text \<open>
  \<^verbatim>\<open>scrape_barcode\<close>. \<^verbatim>\<open>except RuntimeError\<close> catches the error of \<^verbatim>\<open>acquire\<close>; the exception
  of a failed restart is taken not to be a \<^verbatim>\<open>RuntimeError\<close>.
\<close>

definition scrape_barcode ::
  "barcode_request \<Rightarrow> scrape_env \<Rightarrow> world \<Rightarrow> (http_result \<times> world) option" where
  "scrape_barcode request env w =
     (let b = py_strip (req_barcode request);
          sc = py_lower (req_scraper request)
      in if b = [] then Some (HTTPException 400 ''Barcode cannot be empty'', w)
         else if sc \<notin> set [''autodoc'', ''realoem'']
           then Some (HTTPException 400 bad_scraper_detail, w)
         else
           (let timeout = (if sc = ''realoem'' then REALOEM_TIMEOUT else AUTODOC_TIMEOUT)
            in case acquire (acquire_clock env) 30 (acquire_ticks env) w of
                 None \<Rightarrow> None
               | Some (Inl (RuntimeError m), ls, w1) \<Rightarrow>
                   Some (HTTPException 503 ''All scrapers busy, please retry in a moment'', w1)
               | Some (Inl DriverStartError, ls, w1) \<Rightarrow> Some (Unhandled DriverStartError, w1)
               | Some (Inr inst, ls, w1) \<Rightarrow>
                   (case scrape_leased timeout b sc inst (run_outcome_of env)
                           (watchdog_fired env) (release_clock env) w1 of
                      (response, w2) \<Rightarrow> Some (Response response, w2))))"

section \<open>Exhaustion, in the words of the specification\<close>


section \<open>Reading the log and the events\<close>

text \<open>The lines that report a spawn.\<close>

definition is_spawning :: "log_line \<Rightarrow> bool" where
  "is_spawning line = (case line of LogSpawning i n \<Rightarrow> True | LogAcquired i n \<Rightarrow> False)"

text \<open>
  The sessions on which \<^verbatim>\<open>quit\<close> was called, in order, and whether a list of events holds
  nothing but calls of \<^verbatim>\<open>quit\<close> and what they ask of the operating system.
\<close>

definition quit_calls :: "event list \<Rightarrow> nat list" where
  "quit_calls es = concat (map (\<lambda>e. case e of InstQuit r \<Rightarrow> [r] | _ \<Rightarrow> []) es)"

definition teardown_only :: "event list \<Rightarrow> bool" where
  "teardown_only es = list_all (\<lambda>e. case e of InstQuit r \<Rightarrow> True | OS x \<Rightarrow> True | _ \<Rightarrow> False) es"

section \<open>Sample inputs\<close>

text \<open>
  A session with Chrome running and both cookie flags set; the pool after \<^verbatim>\<open>start\<close> and the
  warm-up thread; one iteration of \<^verbatim>\<open>acquire\<close>; two requests to the endpoint, one whose
  scrape raises after the watchdog has fired, one that succeeds just before it fires.
\<close>

definition started_session :: browser_instance where
  "started_session =
     (snd (start (Launched 7 (Some 4242)) (new_instance 1 True 0)))
       \<lparr> autodoc_cookie_handled := True, realoem_cookie_handled := True, lock := True \<rparr>"

definition sample_tick :: tick where
  "sample_tick = \<lparr> clock = 100, init_clock = 100, title_ok = True, relaunch = Launched 8 (Some 4300),
       touch_clock = 101, others = [] \<rparr>"

definition world_ready :: world where
  "world_ready = warmup_perm True 1 (snd (pool_start (Launched 7 (Some 4242)) 0 init_world))"

definition sample_request :: barcode_request where
  "sample_request = \<lparr> req_barcode = '' 34116860912 '', req_scraper = ''AutoDoc'' \<rparr>"

definition env_late_failure :: scrape_env where
  "env_late_failure =
     \<lparr> acquire_clock = 100, acquire_ticks = [sample_tick],
       run_outcome_of = Raises ''invalid session id'', watchdog_fired = True,
       release_clock = 221 \<rparr>"

definition sample_result :: product_response where
  "sample_result = \<lparr> success = True, barcode = ''34116860912'', scraper = ''autodoc'',
       data = Some ''{...}'', error = None \<rparr>"

definition env_late_watchdog :: scrape_env where
  "env_late_watchdog =
     \<lparr> acquire_clock = 100, acquire_ticks = [sample_tick],
       run_outcome_of = Returns sample_result, watchdog_fired = True,
       release_clock = 221 \<rparr>"

text \<open>
  The pool right after \<^verbatim>\<open>start\<close>, the permanent session still locked for its warm-up; a call
  that polls four times and then meets its deadline; the pool with the permanent session
  idle, a temporary session idle since time 10 and another one still starting; the pool with
  the permanent session leased; the pool after a watchdog killed the permanent session.
\<close>

definition world_warming :: world where
  "world_warming = snd (pool_start (Launched 7 (Some 4242)) 0 init_world)"

definition polling_ticks :: "tick list" where
  "polling_ticks =
     [sample_tick\<lparr> clock := 100 \<rparr>, sample_tick\<lparr> clock := 201 / 2 \<rparr>,
      sample_tick\<lparr> clock := 101 \<rparr>, sample_tick\<lparr> clock := 203 / 2 \<rparr>,
      sample_tick\<lparr> clock := 130 \<rparr>]"

definition world_three :: world where
  "world_three =
     run_actions
       [ActAcquireLocked False 10, ActAcquireLocked False 20, ActWarmupPerm True 1,
        ActStartInstance (Launched 8 (Some 4300)) 2]
       world_warming"

definition world_leased :: world where
  "world_leased =
     run_actions
       [ActAcquireLocked False 100, ActAcquireFinish True (Launched 8 (Some 4300)) 101 1 1]
       world_ready"



section \<open>Properties of a session\<close>

lemma quit_fields:
  "alive (snd (quit s)) = False"
  "driver (snd (quit s)) = None"
  "inst_id (snd (quit s)) = inst_id s"
  "permanent (snd (quit s)) = permanent s"
  "lock (snd (quit s)) = lock s"
  "warmup_lock (snd (quit s)) = warmup_lock s"
  "last_used (snd (quit s)) = last_used s"
  "autodoc_cookie_handled (snd (quit s)) = autodoc_cookie_handled s"
  "realoem_cookie_handled (snd (quit s)) = realoem_cookie_handled s"
  by (simp_all add: quit_def Let_def split: option.splits prod.splits)

lemma quit_effects:
  "fst (quit s) =
     (case driver s of Some d \<Rightarrow> [DriverQuit d] | None \<Rightarrow> []) @
     (case service_pid s of Some p \<Rightarrow> (if p \<noteq> 0 then [Kill9 p] else []) | None \<Rightarrow> [])"
  by (simp add: quit_def Let_def split: option.splits prod.splits)

lemmas eval_defs =
  acquire_def sample_tick_def world_ready_def warmup_perm_def pool_start_def alloc_def
  init_world_def start_def new_instance_def emit_def Let_def lock_release_def
  acquire_locked_def lock_acquire_nonblocking_def acquire_finish_def is_alive_def touch_def
  POOL_MAX_INSTANCES_def quit_def revive_def release_def quit_at_def watchdog_def

text \<open>
  Claim C10. Each of \<^verbatim>\<open>start\<close>, \<^verbatim>\<open>quit\<close>, \<^verbatim>\<open>is_alive\<close> and \<^verbatim>\<open>revive\<close> (and \<^verbatim>\<open>touch\<close>, and
  the constructor) keeps the invariant that \<^verbatim>\<open>_alive\<close> is set only while a driver handle is
  present, whatever Chrome and the probe do. A session never started answers \<^verbatim>\<open>is_alive\<close>
  with false and is not changed by it; right after \<^verbatim>\<open>quit\<close> the driver handle is \<^verbatim>\<open>None\<close>,
  the flag is down and \<^verbatim>\<open>is_alive\<close> is false.
\<close>

theorem liveness_flag_needs_driver:
  assumes "alive_has_driver s"
  shows "alive_has_driver (snd (start l s))
       \<and> alive_has_driver (snd (quit s))
       \<and> alive_has_driver (snd (is_alive b s))
       \<and> alive_has_driver (snd (snd (revive l s)))
       \<and> alive_has_driver (touch now s)
       \<and> alive_has_driver (new_instance i perm now)
       \<and> is_alive b (new_instance i perm now) = (False, new_instance i perm now)
       \<and> is_alive b (snd (quit s)) = (False, snd (quit s))
       \<and> driver (snd (quit s)) = None
       \<and> \<not> alive (snd (quit s))"
  using assms
  by (auto simp: alive_has_driver_def start_def quit_def is_alive_def revive_def touch_def
      new_instance_def Let_def split: launch.splits option.splits prod.splits)

theorem liveness_flag_needs_driver_witness:
  "alive_has_driver started_session
   \<and> alive_has_driver (snd (is_alive False started_session))
   \<and> \<not> alive (snd (is_alive False started_session))
   \<and> alive_has_driver (snd (snd (revive LaunchRaises started_session)))
   \<and> is_alive True (snd (quit started_session)) = (False, snd (quit started_session))"
proof -
  have h: "alive_has_driver started_session"
    by (simp add: alive_has_driver_def started_session_def start_def new_instance_def)
  show ?thesis
    using h liveness_flag_needs_driver [OF h, of _ True]
      liveness_flag_needs_driver [OF h, of LaunchRaises False]
    by (simp add: started_session_def start_def new_instance_def is_alive_def)
qed

text \<open>
  Claim C6. \<^verbatim>\<open>revive\<close> leaves the id, the kind, the two locks and \<^verbatim>\<open>last_used\<close> as they were,
  asks the old driver to quit, and clears both cookie flags. When Chrome comes up, the session
  holds the new driver and its liveness flag is set (without a probe); when it does not,
  \<^verbatim>\<open>revive\<close> raises and the session is left without a driver and not alive.
\<close>

theorem revive_frame:
  assumes "revive l s = (x, es, s')"
  shows "inst_id s' = inst_id s \<and> permanent s' = permanent s
       \<and> lock s' = lock s \<and> warmup_lock s' = warmup_lock s \<and> last_used s' = last_used s
       \<and> \<not> autodoc_cookie_handled s' \<and> \<not> realoem_cookie_handled s'
       \<and> (\<forall>d. driver s = Some d \<longrightarrow> DriverQuit d \<in> set es)
       \<and> (case l of
            Launched d p \<Rightarrow>
              x = None \<and> driver s' = Some d \<and> wait s' = Some d \<and> alive s' \<and> service_pid s' = p
          | LaunchRaises \<Rightarrow>
              x = Some DriverStartError \<and> driver s' = None \<and> \<not> alive s')"
  using assms
  by (auto simp: start_def quit_def revive_def Let_def split: launch.splits option.splits prod.splits if_splits)

theorem revive_frame_witness:
  "fst (revive (Launched 9 (Some 5000)) started_session) = None
   \<and> DriverQuit 7 \<in> set (fst (snd (revive (Launched 9 (Some 5000)) started_session)))
   \<and> inst_id (snd (snd (revive (Launched 9 (Some 5000)) started_session))) = 1
   \<and> permanent (snd (snd (revive (Launched 9 (Some 5000)) started_session)))
   \<and> driver (snd (snd (revive (Launched 9 (Some 5000)) started_session))) = Some 9
   \<and> \<not> autodoc_cookie_handled (snd (snd (revive (Launched 9 (Some 5000)) started_session)))"
  using revive_frame [of "Launched 9 (Some 5000)" started_session
      "fst (revive (Launched 9 (Some 5000)) started_session)"
      "fst (snd (revive (Launched 9 (Some 5000)) started_session))"
      "snd (snd (revive (Launched 9 (Some 5000)) started_session))"]
  by (simp add: started_session_def start_def new_instance_def)

section \<open>Properties of the pool\<close>







lemma try_lock_first_None:
  "fst (try_lock_first rs h) = None \<longleftrightarrow> (\<forall>r\<in>set rs. lock (h r))"
  by (induction rs) (auto simp: lock_acquire_nonblocking_def Let_def split: prod.splits)

lemma try_lock_first_None_heap:
  "fst (try_lock_first rs h) = None \<Longrightarrow> snd (try_lock_first rs h) = h"
  by (induction rs) (auto simp: lock_acquire_nonblocking_def Let_def split: prod.splits if_splits)

lemma try_lock_first_Some:
  "try_lock_first rs h = (Some r, h') \<Longrightarrow>
     r \<in> set rs \<and> \<not> lock (h r) \<and> h' = h(r := (h r)\<lparr> lock := True \<rparr>)"
  by (induction rs) (auto simp: lock_acquire_nonblocking_def Let_def split: prod.splits if_splits)

lemma acquire_locked_got:
  assumes "acquire_locked sp now w = ((Some r, sp', n, ls), w1)"
  shows "r \<in> set (instances w) \<and> \<not> lock (heap w r)
       \<and> w1 = w\<lparr> heap := (heap w)(r := (heap w r)\<lparr> lock := True \<rparr>),
                 events := events w @ [PoolLockAcquire, PoolLockRelease] \<rparr>
       \<and> sp' = sp \<and> n = length (instances w) \<and> ls = []"
  using assms
  by (auto simp: acquire_locked_def emit_def Let_def alloc_def split: prod.splits if_splits
      dest!: try_lock_first_Some)

lemma acquire_locked_none:
  assumes "acquire_locked sp now w = ((None, sp', n, ls), w1)"
  shows "(\<forall>r\<in>set (instances w). lock (heap w r)) \<and>
     (if \<not> sp \<and> length (instances w) < POOL_MAX_INSTANCES
      then w1 = w\<lparr> id_counter := id_counter w + 1,
                   heap := (heap w)(id_counter w + 1 :=
                             (new_instance (id_counter w + 1) False now)\<lparr> lock := True \<rparr>),
                   instances := instances w @ [id_counter w + 1],
                   events := events w @ [PoolLockAcquire, RegistryAppend (id_counter w + 1),
                                         PoolLockRelease] \<rparr>
           \<and> sp' = True \<and> n = length (instances w) + 1
           \<and> ls = [LogSpawning (id_counter w + 1) n]
      else w1 = w\<lparr> events := events w @ [PoolLockAcquire, PoolLockRelease] \<rparr>
           \<and> sp' = sp \<and> n = length (instances w) \<and> ls = [])"
proof -
  obtain inst h where t: "try_lock_first (instances w) (heap w) = (inst, h)"
    by (cases "try_lock_first (instances w) (heap w)")
  from assms t have "inst = None"
    by (auto simp: acquire_locked_def emit_def Let_def alloc_def split: prod.splits if_splits)
  with t have a: "\<forall>r\<in>set (instances w). lock (heap w r)" and h: "h = heap w"
    using try_lock_first_None [of "instances w" "heap w"]
      try_lock_first_None_heap [of "instances w" "heap w"] by auto
  show ?thesis
    using assms t \<open>inst = None\<close> a h
    by (auto simp: acquire_locked_def emit_def Let_def alloc_def split: prod.splits if_splits)
qed

lemma emit_fields [simp]:
  "instances (emit es w) = instances w" "heap (emit es w) = heap w"
  "id_counter (emit es w) = id_counter w" "stopped (emit es w) = stopped w"
  "events (emit es w) = events w @ es"
  by (simp_all add: emit_def)

lemma quit_at_fields [simp]:
  "instances (quit_at r w) = instances w" "id_counter (quit_at r w) = id_counter w"
  "stopped (quit_at r w) = stopped w"
  by (simp_all add: quit_at_def Let_def split: prod.splits)

lemma fold_quit_at_instances [simp]: "instances (fold quit_at rs w) = instances w"
  by (induction rs arbitrary: w) simp_all

lemma acquire_finish_instances [simp]:
  "instances (snd (snd (acquire_finish b l now n r w))) = instances w"
  by (simp add: acquire_finish_def Let_def split: prod.splits option.splits)

lemma release_instances [simp]: "instances (release now r w) = instances w"
  by (simp add: release_def Let_def split: prod.splits)

lemma warmup_perm_instances [simp]: "instances (warmup_perm c r w) = instances w"
  by (simp add: warmup_perm_def Let_def split: prod.splits)

lemma start_instance_instances:
  "instances (start_instance l r w) =
     (if l = LaunchRaises then remove1 r (instances w) else instances w)"
  by (cases l) (simp_all add: start_instance_def start_def Let_def remove1_idem split: prod.splits)

lemma fold_registry_remove_fields [simp]:
  "heap (fold registry_remove rs w) = heap w"
  "instances (fold registry_remove rs w) = fold remove1 rs (instances w)"
  "events (fold registry_remove rs w) = events w @ map RegistryRemove rs"
  by (induction rs arbitrary: w) (simp_all add: registry_remove_def)

lemma fold_remove1_absent:
  "x \<notin> set ys \<Longrightarrow> fold remove1 ys (x # xs) = x # fold remove1 ys xs"
  by (induction ys arbitrary: xs) auto

lemma fold_remove1_filter:
  "fold remove1 (filter P xs) xs = filter (\<lambda>x. \<not> P x) xs"
  by (induction xs) (simp_all add: fold_remove1_absent)

lemma idle_reaper_cycle_instances:
  "instances (snd (idle_reaper_cycle now w)) =
     filter (\<lambda>r. \<not> reaper_selects now (heap w r)) (instances w)"
  by (simp add: idle_reaper_cycle_def Let_def fold_remove1_filter)

lemma shutdown_instances:
  "instances (snd (shutdown_begin w)) = instances w"
  "instances (shutdown_finish insts w) = []"
  "instances (shutdown w) = (if stopped w then instances w else [])"
  by (simp_all add: shutdown_def shutdown_begin_def shutdown_finish_def Let_def)

lemma acquire_locked_instances:
  "instances (snd (acquire_locked sp now w)) =
     (if (\<forall>r\<in>set (instances w). lock (heap w r)) \<and> \<not> sp
          \<and> length (instances w) < POOL_MAX_INSTANCES
      then instances w @ [id_counter w + 1] else instances w)"
proof (cases "acquire_locked sp now w")
  case (Pair res w1)
  obtain inst sp' n ls where res: "res = (inst, sp', n, ls)" by (cases res)
  show ?thesis
  proof (cases inst)
    case None
    with Pair res show ?thesis using acquire_locked_none [of sp now w sp' n ls w1]
      by (auto split: if_splits)
  next
    case (Some r)
    with Pair res show ?thesis using acquire_locked_got [of sp now w r sp' n ls w1]
      by auto
  qed
qed

lemma step_no_growth:
  "case a of ActAcquireLocked sp t \<Rightarrow> True
   | _ \<Rightarrow> length (instances (step a w)) \<le> length (instances w)"
  by (cases a)
     (simp_all add: start_instance_instances idle_reaper_cycle_instances shutdown_instances
        watchdog_def length_remove1)

lemma step_keeps_cap:
  assumes "length (instances w) \<le> POOL_MAX_INSTANCES"
  shows "length (instances (step a w)) \<le> POOL_MAX_INSTANCES"
proof (cases a)
  case (ActAcquireLocked sp t)
  with assms show ?thesis by (auto simp: acquire_locked_instances)
qed (use assms step_no_growth [of a w] in auto)

lemma run_actions_keeps_cap:
  "length (instances w) \<le> POOL_MAX_INSTANCES \<Longrightarrow>
   length (instances (run_actions acts w)) \<le> POOL_MAX_INSTANCES"
  unfolding run_actions_def
  by (induction acts arbitrary: w) (simp_all add: step_keeps_cap)

lemma pool_start_instances:
  "instances (snd (pool_start l now w)) =
     (if l = LaunchRaises then instances w else instances w @ [id_counter w + 1])"
  by (cases l) (simp_all add: pool_start_def alloc_def start_def Let_def)

lemma pool_start_permanent:
  "l \<noteq> LaunchRaises \<Longrightarrow> permanent (heap (snd (pool_start l now w)) (id_counter w + 1))"
  by (cases l) (simp_all add: pool_start_def alloc_def start_def Let_def new_instance_def)

text \<open>
  Claim C1. In every state the pool reaches from \<^verbatim>\<open>start\<close> on a new pool, by any sequence
  of steps of its threads, the registry holds at most \<^verbatim>\<open>POOL_MAX_INSTANCES\<close> = 3 sessions.
  \<^verbatim>\<open>start\<close>, when Chrome comes up, appends exactly one session, a permanent one; the locked
  block of \<^verbatim>\<open>acquire\<close> leaves the registry as it is or, between taking and releasing the
  registry lock, appends one temporary session to a registry that is below the cap; no other
  step makes the registry longer.
\<close>

theorem registry_within_cap:
  "length (instances (run_actions acts (snd (pool_start l now init_world)))) \<le> POOL_MAX_INSTANCES
   \<and> POOL_MAX_INSTANCES = 3
   \<and> (fst (pool_start l now w) = None \<longrightarrow>
        instances (snd (pool_start l now w)) = instances w @ [id_counter w + 1]
        \<and> permanent (heap (snd (pool_start l now w)) (id_counter w + 1)))
   \<and> (instances (snd (acquire_locked sp t w)) = instances w
       \<or> length (instances w) < POOL_MAX_INSTANCES
         \<and> instances (snd (acquire_locked sp t w)) = instances w @ [id_counter w + 1]
         \<and> \<not> permanent (heap (snd (acquire_locked sp t w)) (id_counter w + 1))
         \<and> events (snd (acquire_locked sp t w)) =
             events w @ [PoolLockAcquire, RegistryAppend (id_counter w + 1), PoolLockRelease])
   \<and> (case a of ActAcquireLocked sp t \<Rightarrow> True
       | _ \<Rightarrow> length (instances (step a w)) \<le> length (instances w))"
proof -
  have "length (instances (snd (pool_start l now init_world))) \<le> POOL_MAX_INSTANCES"
    by (simp add: pool_start_instances init_world_def POOL_MAX_INSTANCES_def)
  then have a: "length (instances (run_actions acts (snd (pool_start l now init_world))))
      \<le> POOL_MAX_INSTANCES"
    by (rule run_actions_keeps_cap)
  have b: "fst (pool_start l now w) = None \<longrightarrow>
        instances (snd (pool_start l now w)) = instances w @ [id_counter w + 1]
        \<and> permanent (heap (snd (pool_start l now w)) (id_counter w + 1))"
    by (cases l) (simp_all add: pool_start_def alloc_def start_def Let_def new_instance_def)
  have c: "instances (snd (acquire_locked sp t w)) = instances w
       \<or> length (instances w) < POOL_MAX_INSTANCES
         \<and> instances (snd (acquire_locked sp t w)) = instances w @ [id_counter w + 1]
         \<and> \<not> permanent (heap (snd (acquire_locked sp t w)) (id_counter w + 1))
         \<and> events (snd (acquire_locked sp t w)) =
             events w @ [PoolLockAcquire, RegistryAppend (id_counter w + 1), PoolLockRelease]"
  proof (cases "acquire_locked sp t w")
    case (Pair res w1)
    obtain inst sp' n ls where res: "res = (inst, sp', n, ls)" by (cases res)
    show ?thesis
    proof (cases inst)
      case None
      with Pair res show ?thesis using acquire_locked_none [of sp t w sp' n ls w1]
        by (auto simp: new_instance_def split: if_splits)
    next
      case (Some r)
      with Pair res show ?thesis using acquire_locked_got [of sp t w r sp' n ls w1]
        by auto
    qed
  qed
  show ?thesis using a b c step_no_growth [of a w] by (simp add: POOL_MAX_INSTANCES_def)
qed

theorem registry_within_cap_witness:
  "length (instances (run_actions
      [ActAcquireLocked False 1, ActAcquireLocked False 2, ActAcquireLocked False 3,
       ActAcquireLocked False 4]
      (snd (pool_start (Launched 7 (Some 4242)) 0 init_world)))) = 3
   \<and> instances (snd (pool_start (Launched 7 (Some 4242)) 0 init_world)) = [1]
   \<and> permanent (heap (snd (pool_start (Launched 7 (Some 4242)) 0 init_world)) 1)"
  using registry_within_cap [of
      "[ActAcquireLocked False 1, ActAcquireLocked False 2, ActAcquireLocked False 3,
        ActAcquireLocked False 4]" "Launched 7 (Some 4242)" 0 init_world]
  by (simp add: run_actions_def eval_defs)

lemma acquire_finish_no_spawn:
  "filter is_spawning (fst (snd (acquire_finish b l now n r w))) = []"
  by (simp add: acquire_finish_def Let_def is_spawning_def split: prod.splits option.splits)

lemma acquire_locked_log:
  "acquire_locked sp now w = ((inst, sp', n, ls), w1) \<Longrightarrow>
     length (instances w1) = length (instances w) + length (filter is_spawning ls)
     \<and> length (filter is_spawning ls) \<le> (if sp then 0 else 1)
     \<and> (ls \<noteq> [] \<longrightarrow> sp')
     \<and> (sp \<longrightarrow> sp')"
  using acquire_locked_none [of sp now w sp' n ls w1] acquire_locked_got [of sp now w _ sp' n ls w1]
  by (cases inst) (auto simp: is_spawning_def split: if_splits)

lemma acquire_loop_spawns:
  "acquire_loop d sp ts w = Some (res, ls, w') \<Longrightarrow>
     length (filter is_spawning ls) \<le> (if sp then 0 else 1)"
proof (induction ts arbitrary: sp w res ls w')
  case Nil
  then show ?case by simp
next
  case (Cons t ts)
  show ?case
  proof (cases "clock t < d")
    case False
    with Cons.prems show ?thesis by simp
  next
    case True
    obtain inst sp' n ls0 w1 where al: "acquire_locked sp (init_clock t) w = ((inst, sp', n, ls0), w1)"
      by (metis prod.exhaust)
    note lg = acquire_locked_log [OF al]
    show ?thesis
    proof (cases inst)
      case (Some r)
      with Cons.prems True al lg show ?thesis
        using acquire_finish_no_spawn [of "title_ok t" "relaunch t" "touch_clock t" n r w1]
        by (auto split: prod.splits if_splits)
    next
      case None
      with Cons.prems True al obtain ls' where
        rec: "acquire_loop d sp' ts (run_actions (others t) w1) = Some (res, ls', w')"
        and ls: "ls = ls0 @ ls'"
        by (auto split: option.splits prod.splits)
      from Cons.IH [OF rec] lg ls show ?thesis by (auto split: if_splits)
    qed
  qed
qed

lemma acquire_loop_registry_alone:
  "acquire_loop d sp ts w = Some (res, ls, w') \<Longrightarrow> \<forall>t\<in>set ts. others t = [] \<Longrightarrow>
     length (instances w') = length (instances w) + length (filter is_spawning ls)"
proof (induction ts arbitrary: sp w res ls w')
  case Nil
  then show ?case by simp
next
  case (Cons t ts)
  show ?case
  proof (cases "clock t < d")
    case False
    with Cons.prems show ?thesis by simp
  next
    case True
    obtain inst sp' n ls0 w1 where al: "acquire_locked sp (init_clock t) w = ((inst, sp', n, ls0), w1)"
      by (metis prod.exhaust)
    note lg = acquire_locked_log [OF al]
    show ?thesis
    proof (cases inst)
      case (Some r)
      with Cons.prems True al obtain ls' where
        af: "acquire_finish (title_ok t) (relaunch t) (touch_clock t) n r w1 = (res, ls', w')"
        and ls: "ls = ls0 @ ls'"
        by (auto split: prod.splits)
      have "instances w' = instances w1" "filter is_spawning ls' = []"
        using acquire_finish_instances [of "title_ok t" "relaunch t" "touch_clock t" n r w1]
          acquire_finish_no_spawn [of "title_ok t" "relaunch t" "touch_clock t" n r w1] af
        by simp_all
      with lg ls show ?thesis by simp
    next
      case None
      with Cons.prems True al obtain ls' where
        rec: "acquire_loop d sp' ts w1 = Some (res, ls', w')"
        and ls: "ls = ls0 @ ls'"
        by (auto simp: run_actions_def split: option.splits prod.splits)
      from Cons.IH [OF rec] Cons.prems(2) lg ls show ?thesis by auto
    qed
  qed
qed

text \<open>
  Claim C5. One call of \<^verbatim>\<open>acquire\<close> logs at most one spawn, however many times it polls and
  whatever the other threads do meanwhile; every spawn of the locked block is logged and
  makes the registry one longer, and nothing else in the call changes the registry, so that
  a call left alone makes it at most one longer. With the flag \<^verbatim>\<open>spawned\<close> set, neither the
  loop nor the locked block creates a session.
\<close>

theorem acquire_spawns_at_most_once:
  assumes "acquire t0 timeout ts w = Some (res, ls, w')"
  shows "length (filter is_spawning ls) \<le> 1
       \<and> ((\<forall>t\<in>set ts. others t = []) \<longrightarrow>
            length (instances w') = length (instances w) + length (filter is_spawning ls))
       \<and> (acquire_loop d True ts2 v = Some (res2, ls2, v') \<longrightarrow> filter is_spawning ls2 = [])
       \<and> length (instances (snd (acquire_locked sp now v))) =
           length (instances v)
           + length (filter is_spawning (snd (snd (snd (fst (acquire_locked sp now v))))))
       \<and> (sp \<longrightarrow> instances (snd (acquire_locked sp now v)) = instances v)"
proof -
  have a: "length (filter is_spawning ls) \<le> 1"
    using assms acquire_loop_spawns [of "t0 + timeout" False ts w res ls w']
    by (simp add: acquire_def)
  have b: "(\<forall>t\<in>set ts. others t = []) \<longrightarrow>
            length (instances w') = length (instances w) + length (filter is_spawning ls)"
    using assms acquire_loop_registry_alone [of "t0 + timeout" False ts w res ls w']
    by (simp add: acquire_def)
  have c: "acquire_loop d True ts2 v = Some (res2, ls2, v') \<longrightarrow> filter is_spawning ls2 = []"
    using acquire_loop_spawns [of d True ts2 v res2 ls2 v'] by simp
  obtain inst sp' n ls0 v1 where al: "acquire_locked sp now v = ((inst, sp', n, ls0), v1)"
    by (metis prod.exhaust)
  have d: "length (instances (snd (acquire_locked sp now v))) =
           length (instances v)
           + length (filter is_spawning (snd (snd (snd (fst (acquire_locked sp now v))))))"
    using acquire_locked_log [OF al] al by simp
  have e: "sp \<longrightarrow> instances (snd (acquire_locked sp now v)) = instances v"
    by (simp add: acquire_locked_instances)
  from a b c d e show ?thesis by blast
qed

lemma polling_alone: "\<forall>t\<in>set polling_ticks. others t = []"
  by (simp add: polling_ticks_def sample_tick_def)

theorem acquire_spawns_at_most_once_witness:
  "map_option fst (acquire 100 30 polling_ticks world_warming) = Some (Inl pool_exhausted)
   \<and> map_option (fst \<circ> snd) (acquire 100 30 polling_ticks world_warming) = Some [LogSpawning 2 2]
   \<and> map_option (instances \<circ> snd \<circ> snd) (acquire 100 30 polling_ticks world_warming) = Some [1, 2]
   \<and> instances world_warming = [1]"
proof -
  have "\<exists>w'. acquire 100 30 polling_ticks world_warming = Some (Inl pool_exhausted, [LogSpawning 2 2], w')"
    by (simp add: polling_ticks_def world_warming_def run_actions_def eval_defs)
  then obtain w' where
    h: "acquire 100 30 polling_ticks world_warming = Some (Inl pool_exhausted, [LogSpawning 2 2], w')"
    by blast
  have "length (instances w') = length (instances world_warming) + 1"
    using acquire_spawns_at_most_once [OF h] polling_alone by (simp add: is_spawning_def)
  moreover have "instances w' = [1, 2]"
    using h by (auto simp: polling_ticks_def world_warming_def run_actions_def eval_defs)
  ultimately show ?thesis
    using h by (simp add: world_warming_def eval_defs)
qed

lemma release_eq:
  "release now inst w =
     w\<lparr> heap := (heap w)(inst := (heap w inst)\<lparr> last_used := now, lock := False \<rparr>) \<rparr>"
proof (cases "lock (heap w inst)")
  case True
  then show ?thesis by (simp add: release_def touch_def lock_release_def Let_def)
next
  case False
  have eq: "(heap w inst)\<lparr> last_used := now, lock := False \<rparr> = (heap w inst)\<lparr> last_used := now \<rparr>"
    using False by (cases "heap w inst") simp
  have r: "release now inst w = w\<lparr> heap := (heap w)(inst := (heap w inst)\<lparr> last_used := now \<rparr>) \<rparr>"
    using False by (simp add: release_def touch_def lock_release_def Let_def)
  show ?thesis by (simp only: r eq)
qed

lemma fold_release:
  "ts \<noteq> [] \<Longrightarrow>
   fold (\<lambda>t. release t inst) ts w =
     w\<lparr> heap := (heap w)(inst := (heap w inst)\<lparr> last_used := last ts, lock := False \<rparr>) \<rparr>"
proof (induction ts arbitrary: w)
  case Nil
  then show ?case by simp
next
  case (Cons t ts)
  show ?case
  proof (cases "ts = []")
    case True
    have "fold (\<lambda>t. release t inst) (t # ts) w = release t inst w"
      using True by simp
    also have "\<dots> = w\<lparr> heap := (heap w)(inst := (heap w inst)\<lparr> last_used := t, lock := False \<rparr>) \<rparr>"
      by (rule release_eq)
    finally show ?thesis using True by (simp only: last.simps refl if_True)
  next
    case False
    let ?v = "release t inst w"
    have "fold (\<lambda>t. release t inst) (t # ts) w = fold (\<lambda>t. release t inst) ts ?v"
      by simp
    also have "\<dots> = ?v\<lparr> heap := (heap ?v)(inst := (heap ?v inst)\<lparr> last_used := last ts, lock := False \<rparr>) \<rparr>"
      by (rule Cons.IH [OF False])
    also have "\<dots> = w\<lparr> heap := (heap w)(inst := (heap w inst)\<lparr> last_used := last ts, lock := False \<rparr>) \<rparr>"
      by (simp add: release_eq)
    finally show ?thesis using False by (simp only: last.simps if_False)
  qed
qed

text \<open>
  Claim C4. \<^verbatim>\<open>release\<close> never raises: it sets \<^verbatim>\<open>last_used\<close> and leaves the lock free, whether
  the lock was held or not; on a lock that is already free the \<^verbatim>\<open>RuntimeError\<close> of the lock
  is swallowed and only \<^verbatim>\<open>last_used\<close> changes. After one or more calls of \<^verbatim>\<open>release\<close> on a
  session its lock is free, a non-blocking acquire of it succeeds, and the scan of
  \<^verbatim>\<open>acquire\<close> finds a session if this one is registered.
\<close>

theorem release_again_is_safe:
  "\<not> lock (heap (release now inst w) inst)
   \<and> last_used (heap (release now inst w) inst) = now
   \<and> (\<not> lock (heap w inst) \<longrightarrow>
        fst (lock_release (touch now (heap w inst))) = Some (RuntimeError ''release unlocked lock'')
        \<and> release now inst w = w\<lparr> heap := (heap w)(inst := touch now (heap w inst)) \<rparr>)
   \<and> release now inst w =
        w\<lparr> heap := (heap w)(inst := (heap w inst)\<lparr> last_used := now, lock := False \<rparr>) \<rparr>
   \<and> (ts \<noteq> [] \<longrightarrow>
        fold (\<lambda>t. release t inst) ts w =
          w\<lparr> heap := (heap w)(inst := (heap w inst)\<lparr> last_used := last ts, lock := False \<rparr>) \<rparr>
        \<and> \<not> lock (heap (fold (\<lambda>t. release t inst) ts w) inst)
        \<and> fst (lock_acquire_nonblocking (heap (fold (\<lambda>t. release t inst) ts w) inst))
        \<and> (inst \<in> set (instances w) \<longrightarrow>
             fst (try_lock_first (instances (fold (\<lambda>t. release t inst) ts w))
                    (heap (fold (\<lambda>t. release t inst) ts w))) \<noteq> None))"
proof -
  have a: "\<not> lock (heap w inst) \<longrightarrow>
        fst (lock_release (touch now (heap w inst))) = Some (RuntimeError ''release unlocked lock'')
        \<and> release now inst w = w\<lparr> heap := (heap w)(inst := touch now (heap w inst)) \<rparr>"
    by (simp add: release_def touch_def lock_release_def Let_def)
  have b: "ts \<noteq> [] \<longrightarrow>
        \<not> lock (heap (fold (\<lambda>t. release t inst) ts w) inst)
        \<and> fst (lock_acquire_nonblocking (heap (fold (\<lambda>t. release t inst) ts w) inst))"
    by (simp add: fold_release lock_acquire_nonblocking_def)
  have c: "ts \<noteq> [] \<longrightarrow> inst \<in> set (instances w) \<longrightarrow>
             fst (try_lock_first (instances (fold (\<lambda>t. release t inst) ts w))
                    (heap (fold (\<lambda>t. release t inst) ts w))) \<noteq> None"
    using try_lock_first_None [of "instances w"
        "(heap w)(inst := (heap w inst)\<lparr> last_used := last ts, lock := False \<rparr>)"]
    by (auto simp: fold_release)
  show ?thesis using a b c by (simp add: release_eq fold_release)
qed

theorem release_again_is_safe_witness:
  "lock (heap world_leased 1)
   \<and> \<not> lock (heap (fold (\<lambda>t. release t 1) [150, 151] world_leased) 1)
   \<and> last_used (heap (fold (\<lambda>t. release t 1) [150, 151] world_leased) 1) = 151
   \<and> fst (try_lock_first (instances (fold (\<lambda>t. release t 1) [150, 151] world_leased))
            (heap (fold (\<lambda>t. release t 1) [150, 151] world_leased))) = Some 1"
  using release_again_is_safe [of 150 1 world_leased "[150, 151]"]
  by (simp add: world_leased_def run_actions_def eval_defs)

lemma quit_at_events:
  "\<exists>qs. events (quit_at r w) = events w @ qs \<and> teardown_only qs \<and> quit_calls qs = [r]"
proof -
  have "quit_calls (map OS es) = []" "teardown_only (map OS es)" for es
    by (induction es) (simp_all add: quit_calls_def teardown_only_def)
  then show ?thesis
    by (simp add: quit_at_def Let_def quit_calls_def teardown_only_def split: prod.splits)
qed

lemma fold_quit_at_events:
  "\<exists>qs. events (fold quit_at rs w) = events w @ qs \<and> teardown_only qs \<and> quit_calls qs = rs"
proof (induction rs arbitrary: w)
  case Nil
  then show ?case by (simp add: teardown_only_def quit_calls_def)
next
  case (Cons r rs)
  obtain q1 where q1: "events (quit_at r w) = events w @ q1" "teardown_only q1" "quit_calls q1 = [r]"
    using quit_at_events by blast
  obtain q2 where q2: "events (fold quit_at rs (quit_at r w)) = events (quit_at r w) @ q2"
    "teardown_only q2" "quit_calls q2 = rs"
    using Cons.IH by blast
  from q1 q2 have "events (fold quit_at (r # rs) w) = events w @ (q1 @ q2)
      \<and> teardown_only (q1 @ q2) \<and> quit_calls (q1 @ q2) = r # rs"
    by (simp add: teardown_only_def quit_calls_def)
  then show ?case by blast
qed

text \<open>
  Claim C7. A reaper cycle removes from the registry exactly the sessions that are not
  permanent, whose lock is free and whose idle time \<^verbatim>\<open>now - last_used\<close> exceeds
  \<^verbatim>\<open>IDLE_KILL_AFTER\<close>, and keeps the others in their order; a permanent session is never
  removed. The removals happen between taking and releasing the registry lock; after the
  release come the calls of \<^verbatim>\<open>quit\<close>, one for each removed session, and nothing else.
\<close>

theorem idle_reaper_removes_idle_temporaries:
  assumes "idle_reaper_cycle now w = (to_kill, w')"
  shows "to_kill = filter (\<lambda>r. reaper_selects now (heap w r)) (instances w)
       \<and> instances w' = filter (\<lambda>r. \<not> reaper_selects now (heap w r)) (instances w)
       \<and> set (instances w) - set (instances w') =
           {r \<in> set (instances w). \<not> permanent (heap w r) \<and> \<not> lock (heap w r)
              \<and> now - last_used (heap w r) > IDLE_KILL_AFTER}
       \<and> (\<forall>r\<in>set (instances w). permanent (heap w r) \<longrightarrow> r \<in> set (instances w'))
       \<and> (\<exists>qs. events w' =
                  events w @ [PoolLockAcquire] @ map RegistryRemove to_kill @ [PoolLockRelease] @ qs
                \<and> teardown_only qs \<and> quit_calls qs = to_kill)"
proof -
  have k: "to_kill = filter (\<lambda>r. reaper_selects now (heap w r)) (instances w)"
    using assms by (auto simp: idle_reaper_cycle_def Let_def)
  have i: "instances w' = filter (\<lambda>r. \<not> reaper_selects now (heap w r)) (instances w)"
    using assms idle_reaper_cycle_instances [of now w] by simp
  have s: "set (instances w) - set (instances w') =
           {r \<in> set (instances w). \<not> permanent (heap w r) \<and> \<not> lock (heap w r)
              \<and> now - last_used (heap w r) > IDLE_KILL_AFTER}"
    unfolding i by (auto simp: reaper_selects_def)
  have p: "\<forall>r\<in>set (instances w). permanent (heap w r) \<longrightarrow> r \<in> set (instances w')"
    unfolding i by (auto simp: reaper_selects_def)
  let ?w3 = "emit [PoolLockRelease] (fold registry_remove to_kill (emit [PoolLockAcquire] w))"
  have w': "w' = fold quit_at to_kill ?w3"
    using assms by (auto simp: idle_reaper_cycle_def Let_def)
  obtain qs where qs: "events w' = events ?w3 @ qs" "teardown_only qs" "quit_calls qs = to_kill"
    unfolding w' using fold_quit_at_events by blast
  then have "events w' =
      events w @ [PoolLockAcquire] @ map RegistryRemove to_kill @ [PoolLockRelease] @ qs"
    by simp
  with qs have e: "\<exists>qs. events w' =
                  events w @ [PoolLockAcquire] @ map RegistryRemove to_kill @ [PoolLockRelease] @ qs
                \<and> teardown_only qs \<and> quit_calls qs = to_kill"
    by blast
  from k i s p e show ?thesis by blast
qed

theorem idle_reaper_removes_idle_temporaries_witness:
  "fst (idle_reaper_cycle 1000 world_three) = [2]
   \<and> instances world_three = [1, 2, 3]
   \<and> instances (snd (idle_reaper_cycle 1000 world_three)) = [1, 3]
   \<and> permanent (heap world_three 1) \<and> \<not> lock (heap world_three 1)
   \<and> last_used (heap world_three 1) = 0
   \<and> lock (heap world_three 3)
   \<and> events (snd (idle_reaper_cycle 1000 world_three)) =
       events world_three @
       [PoolLockAcquire, RegistryRemove 2, PoolLockRelease,
        InstQuit 2, OS (DriverQuit 8), OS (Kill9 4300)]"
  using idle_reaper_removes_idle_temporaries [of 1000 world_three
      "fst (idle_reaper_cycle 1000 world_three)" "snd (idle_reaper_cycle 1000 world_three)"]
  by (simp add: world_three_def world_warming_def run_actions_def idle_reaper_cycle_def
      reaper_selects_def IDLE_KILL_AFTER_def registry_remove_def start_instance_def eval_defs)

section \<open>Properties of the endpoint\<close>

lemma str_nat_timeouts: "str_nat AUTODOC_TIMEOUT = ''120''" "str_nat REALOEM_TIMEOUT = ''300''"
  by code_simp+

lemma scrape_leased_success:
  "success result \<Longrightarrow> fst (scrape_leased timeout b sc inst (Returns result) fired now w) = result"
  by (simp add: scrape_leased_def Let_def)

lemma scrape_leased_timed_out:
  "fired \<Longrightarrow> (\<forall>result. outcome = Returns result \<longrightarrow> \<not> success result) \<Longrightarrow>
   fst (scrape_leased timeout b sc inst outcome fired now w) = timed_out_response timeout b sc"
  by (cases outcome) (simp_all add: scrape_leased_def Let_def)

lemma strip_lower_sample:
  "py_strip (req_barcode sample_request) = ''34116860912''"
  "py_lower (req_scraper sample_request) = ''autodoc''"
  by code_simp+

text \<open>
  Claim C2. Whenever the handler answers with a response: if \<^verbatim>\<open>_run_scrape\<close> returned a
  success, that result is the answer, whether or not the watchdog has fired by then; if the
  watchdog has fired and \<^verbatim>\<open>_run_scrape\<close> returned a failure or raised, the answer is the
  failure whose error is \<^verbatim>\<open>Scrape timed out after {timeout}s\<close>, with 120 for autodoc and 300
  for realoem, and not the error of the scrape.
\<close>

theorem watchdog_and_completion:
  assumes "scrape_barcode request env w = Some (Response resp, w')"
  shows "(\<forall>result. run_outcome_of env = Returns result \<and> success result \<longrightarrow> resp = result)
       \<and> (watchdog_fired env \<and> (\<forall>result. run_outcome_of env = Returns result \<longrightarrow> \<not> success result) \<longrightarrow>
            resp = timed_out_response
                     (if py_lower (req_scraper request) = ''realoem'' then REALOEM_TIMEOUT else AUTODOC_TIMEOUT)
                     (py_strip (req_barcode request)) (py_lower (req_scraper request)))
       \<and> \<not> success (timed_out_response t b sc)
       \<and> error (timed_out_response t b sc) = Some (''Scrape timed out after '' @ str_nat t @ ''s'')
       \<and> str_nat AUTODOC_TIMEOUT = ''120'' \<and> str_nat REALOEM_TIMEOUT = ''300''"
proof -
  let ?b = "py_strip (req_barcode request)"
  let ?sc = "py_lower (req_scraper request)"
  let ?t = "if ?sc = ''realoem'' then REALOEM_TIMEOUT else AUTODOC_TIMEOUT"
  have "\<exists>inst w1. scrape_leased ?t ?b ?sc inst (run_outcome_of env) (watchdog_fired env) (release_clock env) w1 = (resp, w')"
    using assms
    by (auto simp: scrape_barcode_def Let_def split: if_splits option.splits sum.splits exn.splits prod.splits)
  then obtain inst w1 where
    r: "resp = fst (scrape_leased ?t ?b ?sc inst (run_outcome_of env) (watchdog_fired env) (release_clock env) w1)"
    by (metis fst_conv)
  have a: "\<forall>result. run_outcome_of env = Returns result \<and> success result \<longrightarrow> resp = result"
    using r scrape_leased_success by simp
  have b: "watchdog_fired env \<and> (\<forall>result. run_outcome_of env = Returns result \<longrightarrow> \<not> success result) \<longrightarrow>
            resp = timed_out_response ?t ?b ?sc"
    using r scrape_leased_timed_out by simp
  show ?thesis using a b str_nat_timeouts by (simp add: timed_out_response_def)
qed

theorem watchdog_and_completion_witness:
  "map_option fst (scrape_barcode sample_request env_late_failure world_ready) =
     Some (Response \<lparr> success = False, barcode = ''34116860912'', scraper = ''autodoc'',
             data = None, error = Some ''Scrape timed out after 120s'' \<rparr>)
   \<and> map_option fst (scrape_barcode sample_request env_late_watchdog world_ready) =
     Some (Response sample_result)"
proof -
  have "\<exists>resp w'. scrape_barcode sample_request env_late_failure world_ready = Some (Response resp, w')"
    by (simp add: scrape_barcode_def strip_lower_sample env_late_failure_def scrape_leased_def eval_defs)
  then obtain resp w' where
    h: "scrape_barcode sample_request env_late_failure world_ready = Some (Response resp, w')"
    by blast
  have "\<exists>resp w'. scrape_barcode sample_request env_late_watchdog world_ready = Some (Response resp, w')"
    by (simp add: scrape_barcode_def strip_lower_sample env_late_watchdog_def scrape_leased_def eval_defs)
  then obtain resp2 w2 where
    h2: "scrape_barcode sample_request env_late_watchdog world_ready = Some (Response resp2, w2)"
    by blast
  have "resp = timed_out_response AUTODOC_TIMEOUT ''34116860912'' ''autodoc''"
    using watchdog_and_completion [OF h] by (simp add: strip_lower_sample env_late_failure_def)
  moreover have "resp2 = sample_result"
    using watchdog_and_completion [OF h2] by (simp add: env_late_watchdog_def sample_result_def)
  ultimately show ?thesis
    using h h2 watchdog_and_completion [OF h, of AUTODOC_TIMEOUT]
    by (simp add: timed_out_response_def)
qed

section \<open>Properties of acquire\<close>














end
